theory Spec2Isabelle
  imports Complex_Main "HOL-Library.Sublist" "HOL-Library.Multiset"
begin

section \<open>Distant reading of the synoptic Gospels: the model\<close>

text \<open>
  The development embeds \<^verbatim>\<open>scripts/analyze_gospels.py\<close> (class \<^verbatim>\<open>GospelAnalyzer\<close>).

  \<^item> A Python \<^verbatim>\<open>str\<close> holding file contents or words is a list of Unicode code points
    (\<open>pystr\<close>); \<open>ascii\<close> turns an Isabelle string literal into one. Identifiers that the
    script only uses as dictionary keys and path components stay Isabelle strings.
  \<^item> What Python and its libraries supply and the script does not contain is a parameter:
    the Unicode character tables beyond ASCII (\<open>unicode_db\<close>), and, in \<open>runtime\<close>, the NLTK
    stop-word list, TextBlob's sentiment scores, the iteration order of a \<^verbatim>\<open>set\<close> and the
    \<^verbatim>\<open>json\<close> codec. Every theorem holds for all values of these parameters.
  \<^item> Python floats are idealised as rationals: \<^verbatim>\<open>a / b\<close> is the exact quotient and
    \<^verbatim>\<open>round(x, n)\<close> rounds the exact value half-to-even at \<open>n\<close> decimals.
  \<^item> Exceptions are values: a function that can raise returns \<open>error + 'a\<close>.
\<close>

subsection \<open>Strings\<close>

type_synonym pystr = "nat list"

definition ascii :: "string \<Rightarrow> pystr" where
  "ascii s = map of_char s"

record unicode_db =
  uni_isalnum :: "nat \<Rightarrow> bool"
  uni_isdecimal :: "nat \<Rightarrow> bool"
  uni_lower :: "pystr \<Rightarrow> pystr"

text \<open>The character class \<^verbatim>\<open>[a-z]\<close>.\<close>

definition is_az :: "nat \<Rightarrow> bool" where
  "is_az c \<longleftrightarrow> 97 \<le> c \<and> c \<le> 122"

definition ascii_isalnum :: "nat \<Rightarrow> bool" where
  "ascii_isalnum c \<longleftrightarrow> (48 \<le> c \<and> c \<le> 57) \<or> (65 \<le> c \<and> c \<le> 90) \<or> (97 \<le> c \<and> c \<le> 122)"

text \<open>
  \<^verbatim>\<open>\w\<close> of a \<^verbatim>\<open>str\<close> pattern: an alphanumeric character or the underscore. Below 128 the
  table is written out; above, it is the Unicode database's.
\<close>

definition is_word :: "unicode_db \<Rightarrow> nat \<Rightarrow> bool" where
  "is_word U c = (if c < 128 then ascii_isalnum c \<or> c = 95 else uni_isalnum U c)"

text \<open>\<^verbatim>\<open>\d\<close> of a \<^verbatim>\<open>str\<close> pattern: a Unicode decimal digit.\<close>

definition is_digit :: "unicode_db \<Rightarrow> nat \<Rightarrow> bool" where
  "is_digit U c = (if c < 128 then 48 \<le> c \<and> c \<le> 57 else uni_isdecimal U c)"

definition ascii_lower :: "nat \<Rightarrow> nat" where
  "ascii_lower c = (if 65 \<le> c \<and> c \<le> 90 then c + 32 else c)"

text \<open>
  \<^verbatim>\<open>text.lower()\<close>. On a pure ASCII string it maps \<^verbatim>\<open>A-Z\<close> to \<^verbatim>\<open>a-z\<close>; otherwise the
  result is the Unicode database's (it may change the length and depends on context).
\<close>

definition py_lower :: "unicode_db \<Rightarrow> pystr \<Rightarrow> pystr" where
  "py_lower U s = (if list_all (\<lambda>c. c < 128) s then map ascii_lower s else uni_lower U s)"

text \<open>\<^verbatim>\<open>text.split('\n')\<close> and \<^verbatim>\<open>'\n'.join(lines)\<close>.\<close>

fun py_split_nl :: "pystr \<Rightarrow> pystr list" where
  "py_split_nl [] = [[]]"
| "py_split_nl (c # cs) =
     (if c = 10 then [] # py_split_nl cs
      else (case py_split_nl cs of [] \<Rightarrow> [[c]] | l # ls \<Rightarrow> (c # l) # ls))"

fun py_join_nl :: "pystr list \<Rightarrow> pystr" where
  "py_join_nl [] = []"
| "py_join_nl [l] = l"
| "py_join_nl (l # l' # ls) = l @ 10 # py_join_nl (l' # ls)"

text \<open>\<^verbatim>\<open>text.find(sub)\<close>: the lowest index where \<open>sub\<close> starts; \<open>None\<close> stands for \<open>-1\<close>.\<close>

fun py_find :: "pystr \<Rightarrow> pystr \<Rightarrow> nat option" where
  "py_find [] sub = (if sub = [] then Some 0 else None)"
| "py_find (c # cs) sub =
     (if prefix sub (c # cs) then Some 0 else map_option Suc (py_find cs sub))"

text \<open>\<^verbatim>\<open>re.match(r'^\d{3}:\d{3}', line)\<close> on a line (a string without newline).\<close>

fun match_verse :: "unicode_db \<Rightarrow> pystr \<Rightarrow> bool" where
  "match_verse U (a # b # c # d # e # f # g # rest) =
     (is_digit U a \<and> is_digit U b \<and> is_digit U c \<and> d = 58 \<and>
      is_digit U e \<and> is_digit U f \<and> is_digit U g)"
| "match_verse U _ = False"

subsection \<open>Data model\<close>

text \<open>
  The exceptions that the modelled code can raise. \<open>ReadError\<close> stands for whatever
  \<^verbatim>\<open>open\<close> or \<^verbatim>\<open>read\<close> raises on a file that exists and cannot be read or decoded;
  \<open>OSError\<close> for a failing \<^verbatim>\<open>mkdir\<close> or a failing \<^verbatim>\<open>open\<close> for writing.
\<close>

datatype error = FileNotFoundError | ReadError | KeyError | ZeroDivisionError | OSError

text \<open>A number in the report: an \<^verbatim>\<open>int\<close> or a \<^verbatim>\<open>float\<close>.\<close>

datatype pynum = PyInt int | PyFloat rat


record sentiment_rec =
  polarity :: rat
  subjectivity :: rat

record style_metrics_rec =
  total_words :: nat
  unique_words :: nat
  lexical_diversity :: pynum
  vocabulary_size :: nat
  verse_count :: nat
  avg_words_per_verse :: pynum

record word_count =
  word :: pystr
  count :: nat

record overlap_entry =
  ov_word :: pystr
  matthew :: nat
  mark :: nat
  luke :: nat
  total :: nat

text \<open>
  The dictionary \<^verbatim>\<open>analyze_gospel\<close> returns. \<open>all_words\<close> is \<open>None\<close> once
  \<^verbatim>\<open>run_analysis\<close> has deleted the key.
\<close>

record gospel_result =
  name :: string
  sentiment :: sentiment_rec
  style_metrics :: style_metrics_rec
  top_words :: "word_count list"
  word_cloud :: "word_count list"
  all_words :: "pystr list option"

record report_metadata =
  total_overlapping_words :: nat
  analysis_type :: string
  sentiment_tool :: string
  source :: string

text \<open>
  \<^verbatim>\<open>self.results\<close> is a dictionary from Gospel names to results, kept in insertion order.
\<close>

type_synonym results_dict = "(string \<times> gospel_result) list"

record report =
  rep_gospels :: results_dict
  overlapping_words :: "overlap_entry list"
  metadata :: report_metadata

text \<open>The state of a \<^verbatim>\<open>GospelAnalyzer\<close> object.\<close>

record analyzer =
  base_path :: "string list"
  gospels :: "(string \<times> string) list"
  stop_words :: "pystr set"
  results :: results_dict

text \<open>
  What the script takes from Python and its libraries: the Unicode tables,
  \<^verbatim>\<open>stopwords.words('english')\<close>, TextBlob's \<^verbatim>\<open>sentiment\<close> (polarity, subjectivity), the
  order in which a \<^verbatim>\<open>set\<close> of strings is iterated, and \<^verbatim>\<open>json.dump\<close> / \<^verbatim>\<open>json.load\<close>.
\<close>

record runtime =
  ucd :: unicode_db
  nltk_stopwords :: "pystr list"
  textblob_sentiment :: "pystr \<Rightarrow> rat \<times> rat"
  set_order :: "pystr set \<Rightarrow> pystr list"
  json_dumps :: "report \<Rightarrow> pystr"
  json_loads :: "pystr \<Rightarrow> report option"

subsection \<open>The file system\<close>

text \<open>
  A path is its list of components. A file holds decoded text (the script opens it with
  \<^verbatim>\<open>utf-8-sig\<close>), or cannot be read.
\<close>

type_synonym path = "string list"

datatype file_node = Content pystr | Unreadable

record filesystem =
  files :: "path \<rightharpoonup> file_node"
  dirs :: "path set"

definition read_text :: "filesystem \<Rightarrow> path \<Rightarrow> error + pystr" where
  "read_text fs p =
     (case files fs p of
        None \<Rightarrow> Inl FileNotFoundError
      | Some Unreadable \<Rightarrow> Inl ReadError
      | Some (Content t) \<Rightarrow> Inr t)"

subsection \<open>\<^verbatim>\<open>__init__\<close> and \<^verbatim>\<open>load_gospel\<close>\<close>

definition init :: "runtime \<Rightarrow> path \<Rightarrow> analyzer" where
  "init rt base =
     \<lparr> base_path = base,
       gospels = [(''Matthew'', ''pg8828.txt''), (''Mark'', ''pg8829.txt''), (''Luke'', ''pg8830.txt'')],
       stop_words = set (nltk_stopwords rt),
       results = [] \<rparr>"

definition start_marker :: pystr where
  "start_marker = ascii ''*** START OF''"

definition end_marker :: pystr where
  "end_marker = ascii ''*** END OF''"

text \<open>
  The slicing between the markers. Both indices are taken in the text as read; the second
  slice is applied to the result of the first.
\<close>

definition trim_markers :: "pystr \<Rightarrow> pystr" where
  "trim_markers text =
     (let start_idx = py_find text start_marker;
          end_idx = py_find text end_marker;
          text1 = (case start_idx of None \<Rightarrow> text | Some i \<Rightarrow> drop i text);
          text2 = (case end_idx of None \<Rightarrow> text1 | Some j \<Rightarrow> take j text1)
      in text2)"

text \<open>The loop over the lines, with its two variables \<open>skip_header\<close> and \<open>clean_lines\<close>.\<close>

fun header_loop :: "unicode_db \<Rightarrow> bool \<Rightarrow> pystr list \<Rightarrow> pystr list \<Rightarrow> pystr list" where
  "header_loop U skip_header clean_lines [] = clean_lines"
| "header_loop U skip_header clean_lines (line # lines) =
     (let skip_header' = (if skip_header \<and> match_verse U line then False else skip_header);
          clean_lines' = (if \<not> skip_header' then clean_lines @ [line] else clean_lines)
      in header_loop U skip_header' clean_lines' lines)"

definition clean_text :: "unicode_db \<Rightarrow> pystr \<Rightarrow> pystr" where
  "clean_text U text = py_join_nl (header_loop U True [] (py_split_nl (trim_markers text)))"

definition load_gospel :: "runtime \<Rightarrow> analyzer \<Rightarrow> filesystem \<Rightarrow> string \<Rightarrow> error + pystr" where
  "load_gospel rt self fs filename =
     (case read_text fs (base_path self @ [filename]) of
        Inl e \<Rightarrow> Inl e
      | Inr text \<Rightarrow> Inr (clean_text (ucd rt) text))"

subsection \<open>\<^verbatim>\<open>tokenize_and_clean\<close>\<close>

text \<open>
  \<^verbatim>\<open>re.findall(r'\b[a-z]+\b', s)\<close>, scanning \<open>s\<close> from left to right. \<open>prev_word\<close> says
  whether the character before the current position is a word character (\<^verbatim>\<open>\w\<close>); at the
  start of the string it is \<open>False\<close>. A match can start only where \<^verbatim>\<open>\b\<close> holds in front of a
  letter, that is after a non-word character. The greedy \<^verbatim>\<open>[a-z]+\<close> takes the whole run of
  letters, and the closing \<^verbatim>\<open>\b\<close> holds there only if a non-word character or the end follows:
  inside the run both neighbours are word characters, so backtracking never succeeds. When
  the attempt fails the search moves on by one character; after a match it resumes behind
  the match.
\<close>

function findall_words :: "unicode_db \<Rightarrow> bool \<Rightarrow> pystr \<Rightarrow> pystr list" where
  "findall_words U prev_word [] = []"
| "findall_words U prev_word (c # cs) =
     (if \<not> prev_word \<and> is_az c then
        (let run = takeWhile is_az (c # cs);
             rest = dropWhile is_az (c # cs)
         in if (case rest of [] \<Rightarrow> True | d # _ \<Rightarrow> \<not> is_word U d)
            then run # findall_words U True rest
            else findall_words U True cs)
      else findall_words U (is_word U c) cs)"
  by pat_completeness auto
termination
  by (relation "measure (\<lambda>(U, p, s). length s)")
     (auto simp: le_imp_less_Suc length_dropWhile_le)

text \<open>The list \<open>words\<close> of \<^verbatim>\<open>tokenize_and_clean\<close>, also \<open>all_words\<close> of the style metrics.\<close>

definition candidate_tokens :: "unicode_db \<Rightarrow> pystr \<Rightarrow> pystr list" where
  "candidate_tokens U text = findall_words U False (py_lower U text)"

definition tokenize_and_clean :: "runtime \<Rightarrow> analyzer \<Rightarrow> pystr \<Rightarrow> pystr list" where
  "tokenize_and_clean rt self text =
     (let words = candidate_tokens (ucd rt) text
      in filter (\<lambda>w. w \<notin> stop_words self \<and> length w > 2) words)"

text \<open>
  The maximal runs of elements that satisfy \<open>P\<close>, in order: the reading of
  ``maximal runs of alphabetic characters''.
\<close>

function runs :: "('a \<Rightarrow> bool) \<Rightarrow> 'a list \<Rightarrow> 'a list list" where
  "runs P [] = []"
| "runs P (x # xs) =
     (if P x then takeWhile P (x # xs) # runs P (dropWhile P (x # xs)) else runs P xs)"
  by pat_completeness auto
termination
  by (relation "measure (\<lambda>(P, s). length s)")
     (auto simp: le_imp_less_Suc length_dropWhile_le)

subsection \<open>\<^verbatim>\<open>analyze_sentiment\<close> and \<^verbatim>\<open>calculate_style_metrics\<close>\<close>

definition round_half_even :: "rat \<Rightarrow> int" where
  "round_half_even x =
     (let f = \<lfloor>x\<rfloor>; d = x - of_int f
      in if d < 1 / 2 then f else if 1 / 2 < d then f + 1 else if even f then f else f + 1)"

text \<open>\<^verbatim>\<open>round(x, n)\<close> and the true division \<^verbatim>\<open>a / b\<close> of two non-negative integers.\<close>

definition py_round :: "rat \<Rightarrow> nat \<Rightarrow> rat" where
  "py_round x n = of_int (round_half_even (x * 10 ^ n)) / 10 ^ n"

definition py_truediv :: "nat \<Rightarrow> nat \<Rightarrow> error + rat" where
  "py_truediv a b = (if b = 0 then Inl ZeroDivisionError else Inr (of_nat a / of_nat b))"

definition analyze_sentiment :: "runtime \<Rightarrow> pystr \<Rightarrow> sentiment_rec" where
  "analyze_sentiment rt text =
     (let (p, s) = textblob_sentiment rt text
      in \<lparr> polarity = py_round p 4, subjectivity = py_round s 4 \<rparr>)"

text \<open>
  \<^verbatim>\<open>re.findall(r'^\d{3}:\d{3}', text, re.MULTILINE)\<close>. \<open>bol\<close> says whether the current
  position is the start of the text or follows a newline. A match is seven characters
  long and contains no newline; the search resumes behind it.
\<close>

function findall_verses :: "unicode_db \<Rightarrow> bool \<Rightarrow> pystr \<Rightarrow> pystr list" where
  "findall_verses U bol [] = []"
| "findall_verses U bol (c # cs) =
     (if bol \<and> match_verse U (c # cs)
      then take 7 (c # cs) # findall_verses U False (drop 7 (c # cs))
      else findall_verses U (c = 10) cs)"
  by pat_completeness auto
termination
  by (relation "measure (\<lambda>(U, b, s). length s)") auto

definition calculate_style_metrics ::
    "runtime \<Rightarrow> pystr \<Rightarrow> pystr list \<Rightarrow> error + style_metrics_rec" where
  "calculate_style_metrics rt text filtered_words =
     (let all_words = candidate_tokens (ucd rt) text;
          verses = length (findall_verses (ucd rt) True text);
          total_words = length all_words;
          unique_words = card (set all_words)
      in case (if total_words > 0
               then (case py_truediv unique_words total_words of
                       Inl e \<Rightarrow> Inl e | Inr q \<Rightarrow> Inr (PyFloat (py_round q 4)))
               else Inr (PyInt 0)) of
           Inl e \<Rightarrow> Inl e
         | Inr diversity \<Rightarrow>
             (case (if verses > 0
                    then (case py_truediv total_words verses of
                            Inl e \<Rightarrow> Inl e | Inr q \<Rightarrow> Inr (PyFloat (py_round q 2)))
                    else Inr (PyInt 0)) of
                Inl e \<Rightarrow> Inl e
              | Inr average \<Rightarrow>
                  Inr \<lparr> total_words = total_words,
                        unique_words = unique_words,
                        lexical_diversity = diversity,
                        vocabulary_size = unique_words,
                        verse_count = verses,
                        avg_words_per_verse = average \<rparr>))"

subsection \<open>\<^verbatim>\<open>get_top_words\<close>\<close>

text \<open>
  \<^verbatim>\<open>Counter(words)\<close>: a dictionary in insertion order. Counting a word that is present
  increments its entry in place; a new word is appended.
\<close>

fun counter_add :: "('a \<times> nat) list \<Rightarrow> 'a \<Rightarrow> ('a \<times> nat) list" where
  "counter_add [] w = [(w, 1)]"
| "counter_add ((k, v) # kvs) w =
     (if k = w then (k, v + 1) # kvs else (k, v) # counter_add kvs w)"

definition counter :: "'a list \<Rightarrow> ('a \<times> nat) list" where
  "counter words = foldl counter_add [] words"

text \<open>
  \<^verbatim>\<open>most_common(n)\<close> is \<^verbatim>\<open>heapq.nlargest(n, items, key=count)\<close>, which Python documents as
  \<^verbatim>\<open>sorted(items, key=count, reverse=True)[:n]\<close>: a stable sort by decreasing count, cut
  after \<open>n\<close> entries; for \<open>n \<le> 0\<close> the result is empty.
\<close>

definition most_common :: "int \<Rightarrow> ('a \<times> nat) list \<Rightarrow> ('a \<times> nat) list" where
  "most_common n c = take (nat n) (sort_key (\<lambda>p. - int (snd p)) c)"

definition get_top_words :: "pystr list \<Rightarrow> int \<Rightarrow> word_count list" where
  "get_top_words words n =
     map (\<lambda>(w, c). \<lparr> word = w, count = c \<rparr>) (most_common n (counter words))"

text \<open>The index at which \<open>w\<close> first appears in \<open>ws\<close> (\<open>length ws\<close> if it does not).\<close>

fun first_index :: "'a list \<Rightarrow> 'a \<Rightarrow> nat" where
  "first_index [] w = 0"
| "first_index (x # xs) w = (if x = w then 0 else Suc (first_index xs w))"

text \<open>The entry that the loop of \<^verbatim>\<open>find_overlapping_words\<close> builds for a word.\<close>

definition overlap_entry_of :: "pystr list \<Rightarrow> pystr list \<Rightarrow> pystr list \<Rightarrow> pystr \<Rightarrow> overlap_entry" where
  "overlap_entry_of M K L w =
     \<lparr> ov_word = w, matthew = count_list M w, mark = count_list K w, luke = count_list L w,
       total = count_list M w + count_list K w + count_list L w \<rparr>"

text \<open>
  The ranking of two entries of a counter over \<open>ws\<close>: the higher count first, and of
  two equal counts the word that appears first in \<open>ws\<close>.
\<close>

definition ranked_before :: "'a list \<Rightarrow> 'a \<times> nat \<Rightarrow> 'a \<times> nat \<Rightarrow> bool" where
  "ranked_before ws p q \<longleftrightarrow>
     snd q < snd p \<or> (snd p = snd q \<and> first_index ws (fst p) < first_index ws (fst q))"

subsection \<open>\<^verbatim>\<open>analyze_gospel\<close>\<close>

definition analyze_gospel ::
    "runtime \<Rightarrow> analyzer \<Rightarrow> filesystem \<Rightarrow> string \<Rightarrow> string \<Rightarrow> error + gospel_result" where
  "analyze_gospel rt self fs gname filename =
     (case load_gospel rt self fs filename of
        Inl e \<Rightarrow> Inl e
      | Inr text \<Rightarrow>
          (let filtered_words = tokenize_and_clean rt self text;
               senti = analyze_sentiment rt text
           in case calculate_style_metrics rt text filtered_words of
                Inl e \<Rightarrow> Inl e
              | Inr metrics \<Rightarrow>
                  Inr \<lparr> name = gname,
                        sentiment = senti,
                        style_metrics = metrics,
                        top_words = get_top_words filtered_words 20,
                        word_cloud = get_top_words filtered_words 50,
                        all_words = Some filtered_words \<rparr>))"

subsection \<open>\<^verbatim>\<open>find_overlapping_words\<close>\<close>

text \<open>\<^verbatim>\<open>self.results[key]['all_words']\<close>: either key may be missing.\<close>

definition get_all_words :: "analyzer \<Rightarrow> string \<Rightarrow> error + pystr list" where
  "get_all_words self key =
     (case map_of (results self) key of
        None \<Rightarrow> Inl KeyError
      | Some r \<Rightarrow> (case all_words r of None \<Rightarrow> Inl KeyError | Some ws \<Rightarrow> Inr ws))"

text \<open>
  The body of the method on the three token lists. The loop runs over the set
  \<open>common_words\<close> in the order the runtime iterates it; the sort is stable.
\<close>

definition overlap_data :: "runtime \<Rightarrow> pystr list \<Rightarrow> pystr list \<Rightarrow> pystr list \<Rightarrow> overlap_entry list" where
  "overlap_data rt matthew_all mark_all luke_all =
     (let common_words = set matthew_all \<inter> set mark_all \<inter> set luke_all;
          entries = map (\<lambda>w.
              (let matthew_count = count_list matthew_all w;
                   mark_count = count_list mark_all w;
                   luke_count = count_list luke_all w
               in \<lparr> ov_word = w, matthew = matthew_count, mark = mark_count, luke = luke_count,
                     total = matthew_count + mark_count + luke_count \<rparr>))
            (set_order rt common_words)
      in sort_key (\<lambda>x. - int (total x)) entries)"

definition find_overlapping_words :: "runtime \<Rightarrow> analyzer \<Rightarrow> error + overlap_entry list" where
  "find_overlapping_words rt self =
     (case get_all_words self ''Matthew'' of
        Inl e \<Rightarrow> Inl e
      | Inr matthew_all \<Rightarrow>
          (case get_all_words self ''Mark'' of
             Inl e \<Rightarrow> Inl e
           | Inr mark_all \<Rightarrow>
               (case get_all_words self ''Luke'' of
                  Inl e \<Rightarrow> Inl e
                | Inr luke_all \<Rightarrow> Inr (overlap_data rt matthew_all mark_all luke_all))))"

text \<open>The runtime iterates the set \<open>S\<close> properly: every element once.\<close>

definition enumerates :: "runtime \<Rightarrow> pystr set \<Rightarrow> bool" where
  "enumerates rt S \<longleftrightarrow> set (set_order rt S) = S \<and> distinct (set_order rt S)"

subsection \<open>\<^verbatim>\<open>run_analysis\<close> and \<^verbatim>\<open>save_results\<close>\<close>

text \<open>\<^verbatim>\<open>d[k] = v\<close> on a dictionary in insertion order.\<close>

fun dict_set :: "('k \<times> 'v) list \<Rightarrow> 'k \<Rightarrow> 'v \<Rightarrow> ('k \<times> 'v) list" where
  "dict_set [] k v = [(k, v)]"
| "dict_set ((k', v') # d) k v = (if k' = k then (k, v) # d else (k', v') # dict_set d k v)"

text \<open>The first loop of \<^verbatim>\<open>run_analysis\<close>; an exception ends it.\<close>

fun analyze_all ::
    "runtime \<Rightarrow> filesystem \<Rightarrow> analyzer \<Rightarrow> (string \<times> string) list \<Rightarrow> error + analyzer" where
  "analyze_all rt fs self [] = Inr self"
| "analyze_all rt fs self ((gname, filename) # rest) =
     (case analyze_gospel rt self fs gname filename of
        Inl e \<Rightarrow> Inl e
      | Inr r \<Rightarrow> analyze_all rt fs (self\<lparr> results := dict_set (results self) gname r \<rparr>) rest)"

text \<open>The second loop: \<^verbatim>\<open>del self.results[name]['all_words']\<close> for every name.\<close>

fun del_all_words :: "results_dict \<Rightarrow> error + results_dict" where
  "del_all_words [] = Inr []"
| "del_all_words ((k, r) # d) =
     (case all_words r of
        None \<Rightarrow> Inl KeyError
      | Some ws \<Rightarrow>
          (case del_all_words d of
             Inl e \<Rightarrow> Inl e
           | Inr d' \<Rightarrow> Inr ((k, r\<lparr> all_words := None \<rparr>) # d')))"

definition run_analysis :: "runtime \<Rightarrow> analyzer \<Rightarrow> filesystem \<Rightarrow> error + report \<times> analyzer" where
  "run_analysis rt self fs =
     (case analyze_all rt fs self (gospels self) of
        Inl e \<Rightarrow> Inl e
      | Inr self1 \<Rightarrow>
          (case find_overlapping_words rt self1 of
             Inl e \<Rightarrow> Inl e
           | Inr overlapping \<Rightarrow>
               (case del_all_words (results self1) of
                  Inl e \<Rightarrow> Inl e
                | Inr d \<Rightarrow>
                    Inr (\<lparr> rep_gospels = d,
                           overlapping_words = overlapping,
                           metadata = \<lparr> total_overlapping_words = length overlapping,
                                        analysis_type = ''whole_gospel_level'',
                                        sentiment_tool = ''TextBlob'',
                                        source = ''Weymouth New Testament in Modern Speech (1913)'' \<rparr> \<rparr>,
                         self1\<lparr> results := d \<rparr>))))"

text \<open>
  \<^verbatim>\<open>output_file.parent.mkdir(parents=True, exist_ok=True)\<close>: every missing ancestor is
  created; it fails if the directory or an ancestor exists as a file.
\<close>

definition mkdir_parents :: "filesystem \<Rightarrow> path \<Rightarrow> error + filesystem" where
  "mkdir_parents fs d =
     (if list_ex (\<lambda>q. files fs q \<noteq> None) (prefixes d) then Inl OSError
      else Inr (fs\<lparr> dirs := dirs fs \<union> set (prefixes d) \<rparr>))"

text \<open>\<^verbatim>\<open>open(output_file, 'w')\<close> and the write: it fails if the path is a directory.\<close>

definition write_text :: "filesystem \<Rightarrow> path \<Rightarrow> pystr \<Rightarrow> error + filesystem" where
  "write_text fs p s =
     (if p \<in> dirs fs then Inl OSError
      else Inr (fs\<lparr> files := (files fs)(p \<mapsto> Content s) \<rparr>))"

definition save_results ::
    "runtime \<Rightarrow> analyzer \<Rightarrow> filesystem \<Rightarrow> path \<Rightarrow> (error + report) \<times> filesystem" where
  "save_results rt self fs output_path =
     (let output_file = base_path self @ output_path
      in case mkdir_parents fs (butlast output_file) of
           Inl e \<Rightarrow> (Inl e, fs)
         | Inr fs1 \<Rightarrow>
             (case run_analysis rt self fs1 of
                Inl e \<Rightarrow> (Inl e, fs1)
              | Inr (rep, self') \<Rightarrow>
                  (case write_text fs1 output_file (json_dumps rt rep) of
                     Inl e \<Rightarrow> (Inl e, fs1)
                   | Inr fs2 \<Rightarrow> (Inr rep, fs2))))"


text \<open>The default \<^verbatim>\<open>output_path\<close>.\<close>

definition default_output_path :: path where
  "default_output_path = [''data'', ''analysis_results.json'']"

subsection \<open>A runtime for ASCII examples\<close>

text \<open>
  Concrete values of the parameters, to evaluate the model on ASCII inputs: a Unicode
  database that is never consulted below 128, three stop words, a neutral sentiment, and a
  set iteration that follows a given list of words.
\<close>

definition ascii_ucd :: unicode_db where
  "ascii_ucd = \<lparr> uni_isalnum = (\<lambda>c. False), uni_isdecimal = (\<lambda>c. False), uni_lower = (\<lambda>s. s) \<rparr>"

definition example_runtime :: "pystr list \<Rightarrow> runtime" where
  "example_runtime order =
     \<lparr> ucd = ascii_ucd,
       nltk_stopwords = [ascii ''the'', ascii ''on'', ascii ''and''],
       textblob_sentiment = (\<lambda>t. (0, 0)),
       set_order = (\<lambda>S. filter (\<lambda>w. w \<in> S) order),
       json_dumps = (\<lambda>r. []),
       json_loads = (\<lambda>s. None) \<rparr>"

definition example_fs :: "pystr \<Rightarrow> pystr \<Rightarrow> pystr \<Rightarrow> filesystem" where
  "example_fs m k l =
     \<lparr> files = [[''pg8828.txt''] \<mapsto> Content m, [''pg8829.txt''] \<mapsto> Content k,
                [''pg8830.txt''] \<mapsto> Content l],
       dirs = {[]} \<rparr>"

text \<open>
  Three small Gospel files. After the stop words are gone, \<^verbatim>\<open>bread\<close>, \<^verbatim>\<open>light\<close> and
  \<^verbatim>\<open>water\<close> are common to all three, with totals 4, 3 and 3. \<open>example_self\<close> is the
  analyzer after the first loop of \<^verbatim>\<open>run_analysis\<close> on them.
\<close>

definition example_gospels :: filesystem where
  "example_gospels =
     example_fs (ascii ''001:001 Light, bread and water; bread.'')
       (ascii ''001:001 Water on the light bread'')
       (ascii ''001:001 Bread: light, water, fish'')"

definition example_self :: analyzer where
  "example_self =
     (case analyze_all (example_runtime []) example_gospels (init (example_runtime []) [])
             (gospels (init (example_runtime []) [])) of
        Inl e \<Rightarrow> init (example_runtime []) []
      | Inr self \<Rightarrow> self)"

text \<open>Two orders in which a runtime may iterate the set of the three common words.\<close>

definition example_order_a :: "pystr list" where
  "example_order_a = [ascii ''light'', ascii ''water'', ascii ''bread'']"

definition example_order_b :: "pystr list" where
  "example_order_b = [ascii ''water'', ascii ''light'', ascii ''bread'']"

definition example_matthew :: "pystr list" where
  "example_matthew = [ascii ''light'', ascii ''bread'', ascii ''water'', ascii ''bread'']"

definition example_mark :: "pystr list" where
  "example_mark = [ascii ''water'', ascii ''light'', ascii ''bread'']"

definition example_luke :: "pystr list" where
  "example_luke = [ascii ''bread'', ascii ''light'', ascii ''water'', ascii ''fish'']"

text \<open>The example Gospels without the file of Mark.\<close>

definition example_gospels_no_mark :: filesystem where
  "example_gospels_no_mark =
     example_gospels\<lparr> files := (files example_gospels)([''pg8829.txt''] := None) \<rparr>"



text \<open>Two verses, the scenario of the specification with a newline between them.\<close>

definition example_text :: pystr where
  "example_text =
     ascii ''001:001 The cat sat on the mat.'' @ [10] @ ascii ''001:002 The cat ran far away.''"

text \<open>A token list with three words of count 2 and one of count 1.\<close>

definition example_words :: "pystr list" where
  "example_words = map ascii [''b'', ''a'', ''b'', ''c'', ''a'', ''c'', ''d'']"

section \<open>Properties\<close>

lemmas example_simps = example_fs_def example_runtime_def ascii_ucd_def init_def ascii_def
  start_marker_def end_marker_def sublist_code is_digit_def is_word_def is_az_def
  ascii_isalnum_def ascii_lower_def py_lower_def

subsection \<open>The loader\<close>

lemma py_split_nl_nonempty: "py_split_nl t \<noteq> []"
  by (induction t) (auto split: list.splits)

lemma py_join_nl_Cons: "ls \<noteq> [] \<Longrightarrow> py_join_nl (l # ls) = l @ 10 # py_join_nl ls"
  by (cases ls) auto

text \<open>Splitting at newlines and joining again gives the text back.\<close>

lemma py_join_split_nl: "py_join_nl (py_split_nl t) = t"
proof (induction t)
  case Nil
  show ?case by simp
next
  case (Cons c cs)
  obtain l ls where s: "py_split_nl cs = l # ls"
    using py_split_nl_nonempty [of cs] by (cases "py_split_nl cs") auto
  show ?case
  proof (cases "c = 10")
    case True
    then show ?thesis using Cons py_split_nl_nonempty [of cs] by (simp add: py_join_nl_Cons)
  next
    case False
    then show ?thesis using Cons s by (cases ls) auto
  qed
qed

text \<open>\<^verbatim>\<open>find\<close> returns \<open>-1\<close> exactly when the marker does not occur in the text.\<close>

lemma py_find_None_iff: "py_find t sub = None \<longleftrightarrow> \<not> sublist sub t"
proof (induction t)
  case Nil
  show ?case by simp
next
  case (Cons c cs)
  show ?case
  proof (cases sub)
    case Nil
    then show ?thesis by simp
  next
    case (Cons s ss)
    then show ?thesis using Cons.IH by (simp add: sublist_code del: Cons_prefix_Cons)
  qed
qed

lemma trim_markers_none:
  "\<not> sublist start_marker text \<Longrightarrow> \<not> sublist end_marker text \<Longrightarrow> trim_markers text = text"
  by (simp add: trim_markers_def py_find_None_iff [symmetric])

lemma header_loop_keep: "header_loop U False clean ls = clean @ ls"
  by (induction ls arbitrary: clean) auto

lemma header_loop_skip:
  "header_loop U True clean ls = clean @ dropWhile (\<lambda>l. \<not> match_verse U l) ls"
  by (induction ls arbitrary: clean) (auto simp: header_loop_keep)

text \<open>
  C1, as amended. For a readable file whose text contains neither marker,
  \<^verbatim>\<open>load_gospel\<close> returns the lines of the text from the first line that starts with
  three digits, a colon and three digits, joined by newlines again: exactly the lines
  before that line are removed. The lines are those of the original text. If no line
  starts so, every line is removed and the result is the empty string; nothing is raised.
\<close>

theorem load_gospel_no_markers:
  assumes "files fs (base_path self @ [filename]) = Some (Content text)"
    and "\<not> sublist start_marker text" and "\<not> sublist end_marker text"
  shows "load_gospel rt self fs filename =
           Inr (py_join_nl (dropWhile (\<lambda>l. \<not> match_verse (ucd rt) l) (py_split_nl text)))
         \<and> py_join_nl (py_split_nl text) = text
         \<and> ((\<forall>l \<in> set (py_split_nl text). \<not> match_verse (ucd rt) l)
              \<longrightarrow> load_gospel rt self fs filename = Inr [])"
proof -
  have 1: "load_gospel rt self fs filename =
      Inr (py_join_nl (dropWhile (\<lambda>l. \<not> match_verse (ucd rt) l) (py_split_nl text)))"
    using assms
    by (simp add: load_gospel_def read_text_def clean_text_def trim_markers_none header_loop_skip)
  have 2: "(\<forall>l \<in> set (py_split_nl text). \<not> match_verse (ucd rt) l)
      \<longrightarrow> load_gospel rt self fs filename = Inr []"
  proof
    assume "\<forall>l \<in> set (py_split_nl text). \<not> match_verse (ucd rt) l"
    then have "dropWhile (\<lambda>l. \<not> match_verse (ucd rt) l) (py_split_nl text) = []"
      by simp
    then show "load_gospel rt self fs filename = Inr []"
      by (simp only: 1 py_join_nl.simps)
  qed
  show ?thesis using 1 2 py_join_split_nl by blast
qed

text \<open>A preface line, a verse line and a further line: the preface is removed.\<close>

theorem load_gospel_no_markers_witness:
  "load_gospel (example_runtime []) (init (example_runtime []) [])
     (example_fs (ascii ''Preface'' @ [10] @ ascii ''001:001 In the beginning'' @ [10] @ ascii ''more'') [] [])
     ''pg8828.txt''
   = Inr (ascii ''001:001 In the beginning'' @ [10] @ ascii ''more'')"
  using load_gospel_no_markers [of
     "example_fs (ascii ''Preface'' @ [10] @ ascii ''001:001 In the beginning'' @ [10] @ ascii ''more'') [] []"
     "init (example_runtime []) []" "''pg8828.txt''"
     "ascii ''Preface'' @ [10] @ ascii ''001:001 In the beginning'' @ [10] @ ascii ''more''"
     "example_runtime []"]
  by (simp add: example_simps)

text \<open>
  C1 as stated fails: the two-line text \<^verbatim>\<open>Title\nsome text\<close> has no marker and no verse
  line, and \<^verbatim>\<open>load_gospel\<close> returns the empty string, not the text.
\<close>

theorem load_gospel_no_verse_counterexample:
  "\<not> sublist start_marker (ascii ''Title'' @ [10] @ ascii ''some text'')
   \<and> \<not> sublist end_marker (ascii ''Title'' @ [10] @ ascii ''some text'')
   \<and> filter (match_verse (ucd (example_runtime [])))
        (py_split_nl (ascii ''Title'' @ [10] @ ascii ''some text'')) = []
   \<and> load_gospel (example_runtime []) (init (example_runtime []) [])
        (example_fs (ascii ''Title'' @ [10] @ ascii ''some text'') [] []) ''pg8828.txt''
      = Inr []
   \<and> load_gospel (example_runtime []) (init (example_runtime []) [])
        (example_fs (ascii ''Title'' @ [10] @ ascii ''some text'') [] []) ''pg8828.txt''
      \<noteq> Inr (ascii ''Title'' @ [10] @ ascii ''some text'')"
  by (simp add: example_simps load_gospel_def read_text_def clean_text_def trim_markers_def)

subsection \<open>The tokenizer\<close>

lemma is_az_is_word: "is_az c \<Longrightarrow> is_word U c"
  by (simp add: is_az_def is_word_def ascii_isalnum_def)

text \<open>After a word character the scan skips what is left of that run of word characters.\<close>

lemma findall_words_prev_word:
  "findall_words U True t = findall_words U False (dropWhile (is_word U) t)"
proof (induction t)
  case Nil
  show ?case by simp
next
  case (Cons c cs)
  show ?case
  proof (cases "is_word U c")
    case True
    then show ?thesis using Cons by simp
  next
    case False
    then have "\<not> is_az c" using is_az_is_word by blast
    with False show ?thesis by simp
  qed
qed

lemma while_agree:
  assumes "\<And>x. Q x \<Longrightarrow> P x"
    and "case dropWhile Q xs of [] \<Rightarrow> True | d # _ \<Rightarrow> \<not> P d"
  shows "takeWhile P xs = takeWhile Q xs \<and> dropWhile P xs = dropWhile Q xs"
  using assms
proof (induction xs)
  case Nil
  show ?case by simp
next
  case (Cons x xs)
  show ?case
  proof (cases "Q x")
    case True
    then show ?thesis using Cons by simp
  next
    case False
    then have "\<not> P x" using Cons.prems(2) by simp
    with False show ?thesis by simp
  qed
qed

lemma run_not_all:
  assumes "\<And>x. Q x \<Longrightarrow> P x" and "dropWhile Q xs = d # r" and "P d"
  shows "\<not> list_all Q (takeWhile P xs)"
  using assms
proof (induction xs)
  case Nil
  then show ?case by simp
next
  case (Cons x xs)
  show ?case
  proof (cases "Q x")
    case True
    then show ?thesis using Cons by simp
  next
    case False
    then have "x = d" using Cons.prems(2) by simp
    then show ?thesis using False Cons.prems(3) by simp
  qed
qed

text \<open>
  The regular expression finds the maximal runs of word characters that consist of the
  letters \<^verbatim>\<open>a-z\<close> only.
\<close>

lemma findall_words_runs:
  "findall_words U False t = filter (list_all is_az) (runs (is_word U) t)"
proof (induction "is_word U" t rule: runs.induct)
  case 1
  show ?case by simp
next
  case (2 c cs)
  show ?case
  proof (cases "is_word U c")
    case False
    then have "\<not> is_az c" using is_az_is_word by blast
    with False 2 show ?thesis by simp
  next
    case w: True
    show ?thesis
    proof (cases "is_az c")
      case False
      have "findall_words U False (c # cs) = findall_words U False (dropWhile (is_word U) cs)"
        using False w by (simp add: findall_words_prev_word)
      also have "\<dots> = filter (list_all is_az) (runs (is_word U) (dropWhile (is_word U) (c # cs)))"
        using 2(1) w by simp
      finally show ?thesis using w False by simp
    next
      case az: True
      define rest where "rest = dropWhile is_az (c # cs)"
      show ?thesis
      proof (cases "case rest of [] \<Rightarrow> True | d # _ \<Rightarrow> \<not> is_word U d")
        case True
        have agree: "takeWhile (is_word U) (c # cs) = takeWhile is_az (c # cs)
            \<and> dropWhile (is_word U) (c # cs) = rest"
          using while_agree [of is_az "is_word U" "c # cs"] True is_az_is_word
          unfolding rest_def by blast
        have stay: "dropWhile (is_word U) rest = rest"
          using True by (cases rest) auto
        have "findall_words U False (c # cs) = takeWhile is_az (c # cs) # findall_words U True rest"
          using az True unfolding rest_def by (simp del: dropWhile.simps takeWhile.simps)
        also have "findall_words U True rest = findall_words U False rest"
          by (simp add: findall_words_prev_word stay)
        also have "findall_words U False rest = filter (list_all is_az) (runs (is_word U) rest)"
          using 2(1) w agree by simp
        finally show ?thesis
          using w agree by (simp add: list_all_iff del: dropWhile.simps takeWhile.simps)
            (metis set_takeWhileD)
      next
        case False
        then obtain d r where dr: "rest = d # r" "is_word U d"
          by (cases rest) auto
        have bad: "\<not> list_all is_az (takeWhile (is_word U) (c # cs))"
          using run_not_all [of is_az "is_word U" "c # cs" d r] dr is_az_is_word
          unfolding rest_def by blast
        have "findall_words U False (c # cs) = findall_words U True cs"
          using az False unfolding rest_def by (simp del: dropWhile.simps takeWhile.simps)
        also have "\<dots> = findall_words U False (dropWhile (is_word U) (c # cs))"
          using w by (simp add: findall_words_prev_word)
        also have "\<dots> = filter (list_all is_az) (runs (is_word U) (dropWhile (is_word U) (c # cs)))"
          using 2(1) w by simp
        finally show ?thesis using w bad by (simp del: dropWhile.simps takeWhile.simps)
      qed
    qed
  qed
qed

lemma runs_elem: "r \<in> set (runs P xs) \<Longrightarrow> r \<noteq> [] \<and> list_all P r"
proof (induction P xs rule: runs.induct)
  case (1 P)
  then show ?case by simp
next
  case (2 P x xs)
  show ?case
  proof (cases "P x")
    case True
    then show ?thesis using 2 by (auto simp: list_all_iff dest: set_takeWhileD)
  next
    case False
    then show ?thesis using 2 by simp
  qed
qed

text \<open>
  C2, as amended. The candidate tokens of \<^verbatim>\<open>tokenize_and_clean\<close> (its list \<open>words\<close>,
  which it then filters) are exactly the maximal runs of word characters (letters, digits,
  underscore) of the lowercased text that consist of the letters \<^verbatim>\<open>a-z\<close> only, in order.
  So a token is a non-empty string of letters \<^verbatim>\<open>a-z\<close>, a character that is not a word
  character separates tokens without dropping any, and a run of letters that touches a
  digit, an underscore or another letter is not a token. The input \<^verbatim>\<open>don't\<close> yields
  \<^verbatim>\<open>don\<close> and \<^verbatim>\<open>t\<close>.
\<close>

theorem candidate_tokens_word_runs:
  "tokenize_and_clean rt self text =
     filter (\<lambda>w. w \<notin> stop_words self \<and> 2 < length w) (candidate_tokens (ucd rt) text)
   \<and> candidate_tokens (ucd rt) text =
       filter (list_all is_az) (runs (is_word (ucd rt)) (py_lower (ucd rt) text))
   \<and> (\<forall>w \<in> set (candidate_tokens (ucd rt) text). w \<noteq> [] \<and> list_all is_az w)
   \<and> candidate_tokens (ucd rt) (ascii ''don'' @ [39] @ ascii ''t'') = [ascii ''don'', ascii ''t'']"
proof -
  have 1: "candidate_tokens (ucd rt) text =
       filter (list_all is_az) (runs (is_word (ucd rt)) (py_lower (ucd rt) text))"
    by (simp add: candidate_tokens_def findall_words_runs)
  have 2: "\<forall>w \<in> set (candidate_tokens (ucd rt) text). w \<noteq> [] \<and> list_all is_az w"
    using runs_elem by (auto simp: 1)
  have 3: "candidate_tokens (ucd rt) (ascii ''don'' @ [39] @ ascii ''t'') = [ascii ''don'', ascii ''t'']"
    by (simp add: candidate_tokens_def py_lower_def ascii_def ascii_lower_def is_az_def
        is_word_def ascii_isalnum_def)
  show ?thesis using 1 2 3 by (simp add: tokenize_and_clean_def)
qed

text \<open>
  In \<^verbatim>\<open>The cat9 sat_ on. it\<close> the runs \<^verbatim>\<open>cat9\<close> and \<^verbatim>\<open>sat_\<close> are no tokens; of the
  three candidates none survives the filter.
\<close>

theorem candidate_tokens_word_runs_witness:
  "candidate_tokens (ucd (example_runtime [])) (ascii ''The cat9 sat_ on. it'')
     = [ascii ''the'', ascii ''on'', ascii ''it'']
   \<and> filter (list_all is_az) (runs (is_word (ucd (example_runtime [])))
        (py_lower (ucd (example_runtime [])) (ascii ''The cat9 sat_ on. it'')))
     = [ascii ''the'', ascii ''on'', ascii ''it'']
   \<and> tokenize_and_clean (example_runtime []) (init (example_runtime []) [])
        (ascii ''The cat9 sat_ on. it'') = []"
  using candidate_tokens_word_runs [of "example_runtime []" "init (example_runtime []) []"
      "ascii ''The cat9 sat_ on. it''"]
  by (simp add: example_simps)

text \<open>
  C2 as stated fails: the lowercased text \<^verbatim>\<open>abc1\<close> has the maximal run of letters
  \<^verbatim>\<open>abc\<close>, but the digit behind it leaves no word boundary, so there is no candidate
  token and the run is dropped.
\<close>

theorem candidate_tokens_digit_counterexample:
  "candidate_tokens (ucd (example_runtime [])) (ascii ''abc1'') = []
   \<and> runs is_az (py_lower (ucd (example_runtime [])) (ascii ''abc1'')) = [ascii ''abc'']
   \<and> tokenize_and_clean (example_runtime []) (init (example_runtime []) []) (ascii ''abc1'') = []"
  by (simp add: example_simps candidate_tokens_def tokenize_and_clean_def)

lemma count_list_filter:
  "count_list (filter P xs) w = (if P w then count_list xs w else 0)"
  by (induction xs) auto

text \<open>
  C3. No token returned by \<^verbatim>\<open>tokenize_and_clean\<close> has length at most 2 or is a stop word;
  the returned tokens are a subsequence of the candidate tokens (same relative order), and
  every token that is longer than 2 and no stop word occurs as often as among the
  candidates (duplicates are kept).
\<close>

theorem tokenize_and_clean_filtered:
  "(\<forall>w \<in> set (tokenize_and_clean rt self text). 2 < length w \<and> w \<notin> stop_words self)
   \<and> subseq (tokenize_and_clean rt self text) (candidate_tokens (ucd rt) text)
   \<and> (\<forall>w. 2 < length w \<and> w \<notin> stop_words self \<longrightarrow>
         count_list (tokenize_and_clean rt self text) w
           = count_list (candidate_tokens (ucd rt) text) w)"
  by (simp add: tokenize_and_clean_def count_list_filter)

theorem tokenize_and_clean_filtered_witness:
  "tokenize_and_clean (example_runtime []) (init (example_runtime []) [])
       (ascii ''001:001 The cat sat on the mat. 001:002 The cat ran far away.'')
     = map ascii [''cat'', ''sat'', ''mat'', ''cat'', ''ran'', ''far'', ''away'']
   \<and> list_all (\<lambda>w. 2 < length w \<and> w \<notin> stop_words (init (example_runtime []) []))
       (tokenize_and_clean (example_runtime []) (init (example_runtime []) [])
         (ascii ''001:001 The cat sat on the mat. 001:002 The cat ran far away.''))
   \<and> count_list (tokenize_and_clean (example_runtime []) (init (example_runtime []) [])
         (ascii ''001:001 The cat sat on the mat. 001:002 The cat ran far away.''))
       (ascii ''cat'') = 2"
  using tokenize_and_clean_filtered [of "example_runtime []" "init (example_runtime []) []"
      "ascii ''001:001 The cat sat on the mat. 001:002 The cat ran far away.''"]
  by (simp add: example_simps candidate_tokens_def tokenize_and_clean_def)

subsection \<open>The style metrics\<close>



text \<open>Neither division is reached with a zero divisor, so the method always returns.\<close>

lemma calculate_style_metrics_eq:
  "calculate_style_metrics rt text fw =
     Inr \<lparr> total_words = length (candidate_tokens (ucd rt) text),
           unique_words = card (set (candidate_tokens (ucd rt) text)),
           lexical_diversity =
             (if 0 < length (candidate_tokens (ucd rt) text)
              then PyFloat (py_round (of_nat (card (set (candidate_tokens (ucd rt) text)))
                     / of_nat (length (candidate_tokens (ucd rt) text))) 4)
              else PyInt 0),
           vocabulary_size = card (set (candidate_tokens (ucd rt) text)),
           verse_count = length (findall_verses (ucd rt) True text),
           avg_words_per_verse =
             (if 0 < length (findall_verses (ucd rt) True text)
              then PyFloat (py_round (of_nat (length (candidate_tokens (ucd rt) text))
                     / of_nat (length (findall_verses (ucd rt) True text))) 2)
              else PyInt 0) \<rparr>"
  by (simp add: calculate_style_metrics_def py_truediv_def Let_def)

lemma example_metrics:
  "calculate_style_metrics (example_runtime [])
     example_text []
   = Inr \<lparr> total_words = 11, unique_words = 8, lexical_diversity = PyFloat (7273 / 10000),
           vocabulary_size = 8, verse_count = 2, avg_words_per_verse = PyFloat (55 / 10) \<rparr>"
  by code_simp




text \<open>
  C10. In the record that \<^verbatim>\<open>calculate_style_metrics\<close> returns, \<open>vocabulary_size\<close> equals
  \<open>unique_words\<close>, and \<open>unique_words\<close> is at most \<open>total_words\<close>.
\<close>

theorem style_metrics_vocabulary:
  "\<exists>m. calculate_style_metrics rt text fw = Inr m
     \<and> vocabulary_size m = unique_words m \<and> unique_words m \<le> total_words m"
  by (simp add: calculate_style_metrics_eq card_length)

theorem style_metrics_vocabulary_witness:
  "\<exists>m. calculate_style_metrics (example_runtime [])
          example_text []
        = Inr m
      \<and> vocabulary_size m = 8 \<and> unique_words m = 8 \<and> total_words m = 11"
  using style_metrics_vocabulary [of "example_runtime []" example_text "[]"]
  by (simp add: example_metrics)

subsection \<open>The frequency ranking\<close>

lemma counter_add_keys:
  "map fst (counter_add kvs w) = (if w \<in> fst ` set kvs then map fst kvs else map fst kvs @ [w])"
proof (induction kvs)
  case Nil
  show ?case by simp
next
  case (Cons p kvs)
  obtain k v where p: "p = (k, v)" by (cases p)
  show ?case using Cons by (auto simp: p)
qed

lemma counter_add_map_of:
  "map_of (counter_add kvs w) k =
     (if k = w then Some (case map_of kvs w of None \<Rightarrow> 1 | Some v \<Rightarrow> v + 1) else map_of kvs k)"
proof (induction kvs arbitrary: k)
  case Nil
  show ?case by simp
next
  case (Cons p kvs)
  obtain k' v' where p: "p = (k', v')" by (cases p)
  show ?case using Cons by (simp add: p)
qed

lemma counter_snoc: "counter (ws @ [w]) = counter_add (counter ws) w"
  by (simp add: counter_def)

lemma counter_keys_set: "fst ` set (counter ws) = set ws"
proof (induction ws rule: rev_induct)
  case Nil
  show ?case by (simp add: counter_def)
next
  case (snoc w ws)
  have "fst ` set (counter (ws @ [w])) = set (map fst (counter_add (counter ws) w))"
    by (simp add: counter_snoc)
  also have "\<dots> = set (ws @ [w])"
    using snoc by (auto simp: counter_add_keys)
  finally show ?case .
qed

lemma counter_keys_distinct: "distinct (map fst (counter ws))"
proof (induction ws rule: rev_induct)
  case Nil
  show ?case by (simp add: counter_def)
next
  case (snoc w ws)
  then show ?case by (simp add: counter_snoc counter_add_keys)
qed

lemma counter_map_of:
  "map_of (counter ws) k = (if k \<in> set ws then Some (count_list ws k) else None)"
proof (induction ws arbitrary: k rule: rev_induct)
  case Nil
  show ?case by (simp add: counter_def)
next
  case (snoc w ws)
  show ?case
    by (simp add: counter_snoc counter_add_map_of snoc count_notin)
qed

lemma counter_values: "(k, v) \<in> set (counter ws) \<longleftrightarrow> k \<in> set ws \<and> v = count_list ws k"
proof -
  have "(k, v) \<in> set (counter ws) \<longleftrightarrow> map_of (counter ws) k = Some v"
    using counter_keys_distinct [of ws] by simp
  then show ?thesis by (auto simp: counter_map_of)
qed

lemma first_index_less: "k \<in> set xs \<Longrightarrow> first_index xs k < length xs"
  by (induction xs) auto

lemma first_index_append:
  "first_index (xs @ ys) k = (if k \<in> set xs then first_index xs k else length xs + first_index ys k)"
  by (induction xs) auto

lemma counter_keys_order:
  "sorted_wrt (\<lambda>a b. first_index ws a < first_index ws b) (map fst (counter ws))"
proof (induction ws rule: rev_induct)
  case Nil
  show ?case by (simp add: counter_def)
next
  case (snoc w ws)
  have old: "sorted_wrt (\<lambda>a b. first_index (ws @ [w]) a < first_index (ws @ [w]) b)
      (map fst (counter ws))"
  proof (rule sorted_wrt_mono_rel [OF _ snoc.IH])
    fix x y
    assume "x \<in> set (map fst (counter ws))" "y \<in> set (map fst (counter ws))"
      and "first_index ws x < first_index ws y"
    then show "first_index (ws @ [w]) x < first_index (ws @ [w]) y"
      using counter_keys_set [of ws] by (simp add: first_index_append)
  qed
  show ?case
  proof (cases "w \<in> set ws")
    case True
    then show ?thesis using old by (simp add: counter_snoc counter_add_keys counter_keys_set)
  next
    case False
    have "\<forall>k \<in> set (map fst (counter ws)). first_index (ws @ [w]) k < first_index (ws @ [w]) w"
      using False counter_keys_set [of ws] by (simp add: first_index_append first_index_less)
    then show ?thesis using old False
      by (simp add: counter_snoc counter_add_keys counter_keys_set sorted_wrt_append)
  qed
qed

lemma insort_key_stable:
  assumes "sorted_wrt (\<lambda>a b. f a < f b \<or> (f a = f b \<and> R a b)) ys"
    and "\<forall>y \<in> set ys. R x y"
  shows "sorted_wrt (\<lambda>a b. f a < f b \<or> (f a = f b \<and> R a b)) (insort_key f x ys)"
  using assms
proof (induction ys)
  case Nil
  show ?case by simp
next
  case (Cons y ys)
  show ?case
  proof (cases "f x \<le> f y")
    case True
    have "\<forall>z \<in> set (y # ys). f x < f z \<or> (f x = f z \<and> R x z)"
      using True Cons.prems by fastforce
    then show ?thesis using True Cons.prems(1) by simp
  next
    case False
    then show ?thesis using Cons by (auto simp: set_insort_key)
  qed
qed

lemma sort_key_stable_wrt:
  "sorted_wrt R xs \<Longrightarrow>
     sorted_wrt (\<lambda>a b. f a < f b \<or> (f a = f b \<and> R a b)) (sort_key f xs)"
proof (induction xs)
  case Nil
  show ?case by simp
next
  case (Cons x xs)
  then show ?case by (simp add: insort_key_stable)
qed


lemma counter_length: "length (counter ws) = card (set ws)"
proof -
  have "length (counter ws) = card (set (map fst (counter ws)))"
    using counter_keys_distinct [of ws] by (simp add: distinct_card del: set_map)
  then show ?thesis by (simp add: counter_keys_set)
qed

lemma sorted_counter_ranked:
  "sorted_wrt (ranked_before ws) (sort_key (\<lambda>p. - int (snd p)) (counter ws))"
proof -
  have "sorted_wrt (\<lambda>p q. first_index ws (fst p) < first_index ws (fst q)) (counter ws)"
    using counter_keys_order [of ws] by (simp add: sorted_wrt_map)
  from sort_key_stable_wrt [OF this, of "\<lambda>p. - int (snd p)"]
  show ?thesis
    by (rule sorted_wrt_mono_rel [rotated]) (auto simp: ranked_before_def)
qed

lemma most_common_ranked: "sorted_wrt (ranked_before ws) (most_common n (counter ws))"
  unfolding most_common_def by (rule sorted_wrt_take) (rule sorted_counter_ranked)

lemma most_common_length: "length (most_common n (counter ws)) = min (nat n) (card (set ws))"
  by (simp add: most_common_def counter_length min.commute)

lemma most_common_subset: "set (most_common n (counter ws)) \<subseteq> set (counter ws)"
  unfolding most_common_def using set_take_subset [of "nat n"] by fastforce

lemma most_common_distinct: "distinct (map fst (most_common n (counter ws)))"
proof -
  let ?S = "sort_key (\<lambda>p. - int (snd p)) (counter ws)"
  have "distinct (map fst ?S)"
    using counter_keys_distinct [of ws] by (simp add: distinct_map)
  then show ?thesis
    by (simp add: most_common_def take_map [symmetric] del: take_map)
qed

lemma most_common_left_out:
  assumes "p \<in> set (most_common n (counter ws))" and "w \<in> set ws"
    and "w \<notin> fst ` set (most_common n (counter ws))"
  shows "ranked_before ws p (w, count_list ws w)"
proof -
  let ?S = "sort_key (\<lambda>p. - int (snd p)) (counter ws)"
  have "(w, count_list ws w) \<in> set ?S"
    using assms(2) by (simp add: counter_values)
  then have "(w, count_list ws w) \<in> set (take (nat n) ?S) \<union> set (drop (nat n) ?S)"
    by (metis append_take_drop_id set_append)
  moreover have "(w, count_list ws w) \<notin> set (take (nat n) ?S)"
    using assms(3) by (force simp: most_common_def)
  ultimately have d: "(w, count_list ws w) \<in> set (drop (nat n) ?S)" by blast
  have "sorted_wrt (ranked_before ws) (take (nat n) ?S @ drop (nat n) ?S)"
    using sorted_counter_ranked [of ws] by simp
  then show ?thesis
    using d assms(1) unfolding sorted_wrt_append most_common_def by blast
qed

text \<open>
  C5. \<^verbatim>\<open>get_top_words(words, n)\<close> returns \<open>min n d\<close> entries, \<open>d\<close> the number of
  distinct tokens (none for \<open>n \<le> 0\<close>), so all \<open>d\<close> when \<open>n \<ge> d\<close>. The entries have
  different words, each with its number of occurrences in \<open>words\<close>. Their counts do not
  increase along the list, and of two entries with equal counts the one whose word appears
  first in \<open>words\<close> comes first. Every word left out has a smaller count than every entry,
  or the same count and a later first appearance: the entries are the \<open>n\<close> most frequent
  tokens.
\<close>

theorem get_top_words_ranked:
  "length (get_top_words ws n) = min (nat n) (card (set ws))
   \<and> distinct (map word (get_top_words ws n))
   \<and> (\<forall>e \<in> set (get_top_words ws n). word e \<in> set ws \<and> count e = count_list ws (word e))
   \<and> sorted_wrt (\<lambda>a b. count b \<le> count a) (get_top_words ws n)
   \<and> sorted_wrt (\<lambda>a b. count a = count b \<longrightarrow> first_index ws (word a) < first_index ws (word b))
       (get_top_words ws n)
   \<and> (\<forall>e \<in> set (get_top_words ws n). \<forall>w \<in> set ws. w \<notin> word ` set (get_top_words ws n) \<longrightarrow>
         count_list ws w < count e
         \<or> (count_list ws w = count e \<and> first_index ws (word e) < first_index ws w))
   \<and> (int (card (set ws)) \<le> n \<longrightarrow> length (get_top_words ws n) = card (set ws))"
proof -
  let ?T = "most_common n (counter ws)"
  let ?mk = "\<lambda>(w, c). \<lparr> word = w, count = c \<rparr>"
  have out: "get_top_words ws n = map ?mk ?T"
    by (simp add: get_top_words_def)
  have w: "word (?mk p) = fst p" and c: "count (?mk p) = snd p" for p
    by (cases p, simp)+
  have words: "map word (get_top_words ws n) = map fst ?T"
    by (simp add: out w)
  have len: "length (get_top_words ws n) = min (nat n) (card (set ws))"
    by (simp add: out most_common_length)
  have dist: "distinct (map word (get_top_words ws n))"
    by (simp only: words most_common_distinct)
  have vals: "\<forall>e \<in> set (get_top_words ws n). word e \<in> set ws \<and> count e = count_list ws (word e)"
  proof
    fix e assume "e \<in> set (get_top_words ws n)"
    then obtain p where p: "p \<in> set ?T" "e = ?mk p" by (auto simp: out)
    then have "(fst p, snd p) \<in> set (counter ws)" using most_common_subset by fastforce
    then have "fst p \<in> set ws \<and> snd p = count_list ws (fst p)"
      by (simp only: counter_values)
    then show "word e \<in> set ws \<and> count e = count_list ws (word e)"
      by (simp add: p w c)
  qed
  have ranked: "sorted_wrt (\<lambda>a b. ranked_before ws (fst a, snd a) (fst b, snd b)) ?T"
    using most_common_ranked [of ws n] by simp
  have s1: "sorted_wrt (\<lambda>a b. count b \<le> count a) (get_top_words ws n)"
    unfolding out sorted_wrt_map
    by (rule sorted_wrt_mono_rel [OF _ ranked]) (auto simp: ranked_before_def w c)
  have s2: "sorted_wrt (\<lambda>a b. count a = count b \<longrightarrow> first_index ws (word a) < first_index ws (word b))
       (get_top_words ws n)"
    unfolding out sorted_wrt_map
    by (rule sorted_wrt_mono_rel [OF _ ranked]) (auto simp: ranked_before_def w c)
  have left: "\<forall>e \<in> set (get_top_words ws n). \<forall>w \<in> set ws. w \<notin> word ` set (get_top_words ws n) \<longrightarrow>
         count_list ws w < count e
         \<or> (count_list ws w = count e \<and> first_index ws (word e) < first_index ws w)"
  proof (intro ballI impI)
    fix e x assume e: "e \<in> set (get_top_words ws n)" and x: "x \<in> set ws"
      and nx: "x \<notin> word ` set (get_top_words ws n)"
    from e obtain p where p: "p \<in> set ?T" "e = ?mk p" by (auto simp: out)
    have "word ` set (get_top_words ws n) = fst ` set ?T"
      using words by (metis set_map)
    with nx have "x \<notin> fst ` set ?T" by simp
    from most_common_left_out [OF p(1) x this]
    show "count_list ws x < count e
         \<or> (count_list ws x = count e \<and> first_index ws (word e) < first_index ws x)"
      by (auto simp: ranked_before_def p w c)
  qed
  have all: "int (card (set ws)) \<le> n \<longrightarrow> length (get_top_words ws n) = card (set ws)"
    using len by auto
  show ?thesis using len dist vals s1 s2 left all by blast
qed

lemma example_top_words:
  "get_top_words example_words 2 =
     [\<lparr> word = ascii ''b'', count = 2 \<rparr>, \<lparr> word = ascii ''a'', count = 2 \<rparr>]"
  "get_top_words example_words 10 =
     [\<lparr> word = ascii ''b'', count = 2 \<rparr>, \<lparr> word = ascii ''a'', count = 2 \<rparr>,
      \<lparr> word = ascii ''c'', count = 2 \<rparr>, \<lparr> word = ascii ''d'', count = 1 \<rparr>]"
  "card (set example_words) = 4"
  by code_simp+

text \<open>
  Of the three words with count 2 the first two by appearance are the top 2; with
  \<open>n = 10\<close> all four distinct words are returned.
\<close>

theorem get_top_words_ranked_witness:
  "get_top_words example_words 2 =
     [\<lparr> word = ascii ''b'', count = 2 \<rparr>, \<lparr> word = ascii ''a'', count = 2 \<rparr>]
   \<and> int (card (set example_words)) \<le> 10
   \<and> length (get_top_words example_words 10) = card (set example_words)
   \<and> length (get_top_words example_words 2) = min (nat 2) (card (set example_words))"
  using get_top_words_ranked [of example_words 2] get_top_words_ranked [of example_words 10]
  by (simp add: example_top_words)

subsection \<open>The overlap finder\<close>

lemma overlap_data_eq:
  "overlap_data rt M K L =
     sort_key (\<lambda>x. - int (total x))
       (map (overlap_entry_of M K L) (set_order rt (set M \<inter> set K \<inter> set L)))"
  by (simp add: overlap_data_def Let_def overlap_entry_of_def [abs_def])

lemma find_overlapping_words_eq:
  assumes "get_all_words self ''Matthew'' = Inr M" and "get_all_words self ''Mark'' = Inr K"
    and "get_all_words self ''Luke'' = Inr L"
  shows "find_overlapping_words rt self = Inr (overlap_data rt M K L)"
  using assms by (simp add: find_overlapping_words_def)

lemma overlap_data_set:
  assumes "enumerates rt (set M \<inter> set K \<inter> set L)"
  shows "set (overlap_data rt M K L) = overlap_entry_of M K L ` (set M \<inter> set K \<inter> set L)"
  using assms by (simp add: overlap_data_eq enumerates_def)

lemma overlap_data_distinct:
  assumes "enumerates rt (set M \<inter> set K \<inter> set L)"
  shows "distinct (map ov_word (overlap_data rt M K L))"
proof -
  have inj: "inj_on (overlap_entry_of M K L) A" for A
    by (rule inj_onI) (simp add: overlap_entry_of_def)
  have "distinct (map (overlap_entry_of M K L) (set_order rt (set M \<inter> set K \<inter> set L)))"
    using assms by (simp add: distinct_map enumerates_def inj)
  then have "distinct (overlap_data rt M K L)"
    by (simp add: overlap_data_eq)
  moreover have "inj_on ov_word (set (overlap_data rt M K L))"
    unfolding overlap_data_set [OF assms]
    by (rule inj_onI) (auto simp: overlap_entry_of_def)
  ultimately show ?thesis by (simp add: distinct_map)
qed

lemma overlap_data_sorted: "sorted_wrt (\<lambda>a b. total b \<le> total a) (overlap_data rt M K L)"
proof -
  have "sorted (map (\<lambda>x. - int (total x)) (overlap_data rt M K L))"
    by (simp add: overlap_data_eq)
  then show ?thesis by (simp add: sorted_map)
qed

lemma overlap_data_mset:
  assumes "enumerates rt1 (set M \<inter> set K \<inter> set L)" and "enumerates rt2 (set M \<inter> set K \<inter> set L)"
  shows "mset (overlap_data rt1 M K L) = mset (overlap_data rt2 M K L)"
proof -
  have "mset (set_order rt1 (set M \<inter> set K \<inter> set L)) = mset (set_order rt2 (set M \<inter> set K \<inter> set L))"
    using assms by (simp add: enumerates_def set_eq_iff_mset_eq_distinct [symmetric])
  then have "mset (map (overlap_entry_of M K L) (set_order rt1 (set M \<inter> set K \<inter> set L)))
      = mset (map (overlap_entry_of M K L) (set_order rt2 (set M \<inter> set K \<inter> set L)))"
    by simp
  then show ?thesis by (simp add: overlap_data_eq)
qed

lemma overlap_data_totals:
  assumes "mset (overlap_data rt1 M K L) = mset (overlap_data rt2 M K L)"
  shows "map total (overlap_data rt1 M K L) = map total (overlap_data rt2 M K L)"
proof -
  let ?f = "\<lambda>x. - int (total x)"
  have m: "mset (map ?f (overlap_data rt1 M K L)) = mset (map ?f (overlap_data rt2 M K L))"
    using assms by simp
  have s: "sorted (map ?f (overlap_data rt M K L))" for rt
    by (simp add: overlap_data_eq)
  have "map ?f (overlap_data rt1 M K L) = sort (map ?f (overlap_data rt2 M K L))"
    using m s [of rt1] by (metis properties_for_sort)
  also have "\<dots> = map ?f (overlap_data rt2 M K L)"
    using s [of rt2] by (simp add: sorted_sort_id)
  finally have eq: "map ?f (overlap_data rt1 M K L) = map ?f (overlap_data rt2 M K L)" .
  have tot: "map total xs = map (\<lambda>z. nat (- z)) (map ?f xs)" for xs :: "overlap_entry list"
    by (simp add: comp_def)
  show ?thesis
    by (simp only: tot [of "overlap_data rt1 M K L"] tot [of "overlap_data rt2 M K L"] eq)
qed

lemma overlap_data_ties:
  "map ov_word (filter (\<lambda>e. total e = t) (overlap_data rt M K L))
     = filter (\<lambda>w. count_list M w + count_list K w + count_list L w = t)
         (set_order rt (set M \<inter> set K \<inter> set L))"
proof -
  have "filter (\<lambda>e. total e = t) (overlap_data rt M K L)
      = filter (\<lambda>e. - int (total e) = - int t) (overlap_data rt M K L)"
    by simp
  also have "\<dots> = filter (\<lambda>e. - int (total e) = - int t)
      (map (overlap_entry_of M K L) (set_order rt (set M \<inter> set K \<inter> set L)))"
    unfolding overlap_data_eq by (rule sort_key_stable)
  finally show ?thesis
    by (simp add: filter_map comp_def overlap_entry_of_def)
qed

lemma example_self_words:
  "get_all_words example_self ''Matthew'' = Inr example_matthew"
  "get_all_words example_self ''Mark'' = Inr example_mark"
  "get_all_words example_self ''Luke'' = Inr example_luke"
  by code_simp+

lemma example_enumerates:
  "enumerates (example_runtime example_order_a) (set example_matthew \<inter> set example_mark \<inter> set example_luke)"
  "enumerates (example_runtime example_order_b) (set example_matthew \<inter> set example_mark \<inter> set example_luke)"
  by code_simp+

lemma example_overlap_a:
  "find_overlapping_words (example_runtime example_order_a) example_self =
     Inr [\<lparr> ov_word = ascii ''bread'', matthew = 2, mark = 1, luke = 1, total = 4 \<rparr>,
          \<lparr> ov_word = ascii ''light'', matthew = 1, mark = 1, luke = 1, total = 3 \<rparr>,
          \<lparr> ov_word = ascii ''water'', matthew = 1, mark = 1, luke = 1, total = 3 \<rparr>]"
  by code_simp

lemma example_overlap_b:
  "find_overlapping_words (example_runtime example_order_b) example_self =
     Inr [\<lparr> ov_word = ascii ''bread'', matthew = 2, mark = 1, luke = 1, total = 4 \<rparr>,
          \<lparr> ov_word = ascii ''water'', matthew = 1, mark = 1, luke = 1, total = 3 \<rparr>,
          \<lparr> ov_word = ascii ''light'', matthew = 1, mark = 1, luke = 1, total = 3 \<rparr>]"
  by code_simp

text \<open>
  C6. Let the three token sequences be stored in \<^verbatim>\<open>self.results\<close> and let the runtime
  iterate their intersection set properly. Then \<^verbatim>\<open>find_overlapping_words\<close> returns a
  list whose words are exactly the intersection of the three sets of distinct tokens, each
  word once; every entry holds the number of occurrences of its word in each of the three
  sequences and their sum as total; and the totals do not increase along the list.
\<close>

theorem find_overlapping_words_intersection:
  assumes "get_all_words self ''Matthew'' = Inr M" and "get_all_words self ''Mark'' = Inr K"
    and "get_all_words self ''Luke'' = Inr L"
    and "enumerates rt (set M \<inter> set K \<inter> set L)"
  shows "\<exists>ov. find_overlapping_words rt self = Inr ov
     \<and> ov_word ` set ov = set M \<inter> set K \<inter> set L
     \<and> distinct (map ov_word ov)
     \<and> (\<forall>e \<in> set ov. matthew e = count_list M (ov_word e) \<and> mark e = count_list K (ov_word e)
            \<and> luke e = count_list L (ov_word e) \<and> total e = matthew e + mark e + luke e)
     \<and> sorted_wrt (\<lambda>a b. total b \<le> total a) ov"
proof -
  let ?ov = "overlap_data rt M K L"
  have 1: "find_overlapping_words rt self = Inr ?ov"
    using assms(1-3) by (rule find_overlapping_words_eq)
  have s: "set ?ov = overlap_entry_of M K L ` (set M \<inter> set K \<inter> set L)"
    using assms(4) by (rule overlap_data_set)
  have 2: "ov_word ` set ?ov = set M \<inter> set K \<inter> set L"
    unfolding s by (force simp: overlap_entry_of_def)
  have 3: "\<forall>e \<in> set ?ov. matthew e = count_list M (ov_word e) \<and> mark e = count_list K (ov_word e)
            \<and> luke e = count_list L (ov_word e) \<and> total e = matthew e + mark e + luke e"
    unfolding s by (simp add: overlap_entry_of_def)
  show ?thesis
    using 1 2 3 overlap_data_distinct [OF assms(4)] overlap_data_sorted [of rt M K L] by blast
qed

text \<open>The three example Gospels share \<^verbatim>\<open>bread\<close> (total 4), \<^verbatim>\<open>light\<close> and \<^verbatim>\<open>water\<close> (3 each).\<close>

theorem find_overlapping_words_intersection_witness:
  "find_overlapping_words (example_runtime example_order_a) example_self =
     Inr [\<lparr> ov_word = ascii ''bread'', matthew = 2, mark = 1, luke = 1, total = 4 \<rparr>,
          \<lparr> ov_word = ascii ''light'', matthew = 1, mark = 1, luke = 1, total = 3 \<rparr>,
          \<lparr> ov_word = ascii ''water'', matthew = 1, mark = 1, luke = 1, total = 3 \<rparr>]
   \<and> set example_matthew \<inter> set example_mark \<inter> set example_luke
       = {ascii ''bread'', ascii ''light'', ascii ''water''}"
  using find_overlapping_words_intersection [OF example_self_words example_enumerates(1)]
  by (auto simp: example_overlap_a)

text \<open>
  C9, as amended. For fixed token sequences the result is determined up to the order of
  entries whose totals tie. Two runs, each iterating the intersection set in its own
  order, return the same entries with the same multiplicities and the same sequence of
  totals; the entries of one total appear in the order in which the run iterates the set;
  and two runs that iterate the set in the same order return the same list.
\<close>

theorem find_overlapping_words_order:
  assumes "get_all_words self ''Matthew'' = Inr M" and "get_all_words self ''Mark'' = Inr K"
    and "get_all_words self ''Luke'' = Inr L"
    and "enumerates rt1 (set M \<inter> set K \<inter> set L)" and "enumerates rt2 (set M \<inter> set K \<inter> set L)"
  shows "\<exists>ov1 ov2. find_overlapping_words rt1 self = Inr ov1 \<and> find_overlapping_words rt2 self = Inr ov2
     \<and> mset ov1 = mset ov2
     \<and> map total ov1 = map total ov2
     \<and> (\<forall>t. map ov_word (filter (\<lambda>e. total e = t) ov1)
            = filter (\<lambda>w. count_list M w + count_list K w + count_list L w = t)
                (set_order rt1 (set M \<inter> set K \<inter> set L)))
     \<and> (set_order rt1 (set M \<inter> set K \<inter> set L) = set_order rt2 (set M \<inter> set K \<inter> set L)
          \<longrightarrow> ov1 = ov2)"
proof -
  have 1: "find_overlapping_words rt1 self = Inr (overlap_data rt1 M K L)"
    and 2: "find_overlapping_words rt2 self = Inr (overlap_data rt2 M K L)"
    using assms(1-3) by (rule find_overlapping_words_eq)+
  have m: "mset (overlap_data rt1 M K L) = mset (overlap_data rt2 M K L)"
    using assms(4,5) by (rule overlap_data_mset)
  have e: "set_order rt1 (set M \<inter> set K \<inter> set L) = set_order rt2 (set M \<inter> set K \<inter> set L)
          \<longrightarrow> overlap_data rt1 M K L = overlap_data rt2 M K L"
    by (simp add: overlap_data_eq)
  show ?thesis
    using 1 2 m overlap_data_totals [OF m] overlap_data_ties [of _ rt1 M K L] e by blast
qed


text \<open>
  With \<^verbatim>\<open>light\<close> iterated before \<^verbatim>\<open>water\<close> in one run and after it in the other, both
  lists have the totals 4, 3, 3, and the two tied words change places.
\<close>

theorem find_overlapping_words_order_witness:
  "\<exists>ov1 ov2. find_overlapping_words (example_runtime example_order_a) example_self = Inr ov1
     \<and> find_overlapping_words (example_runtime example_order_b) example_self = Inr ov2
     \<and> mset ov1 = mset ov2
     \<and> map total ov1 = [4, 3, 3] \<and> map total ov2 = [4, 3, 3]
     \<and> map ov_word ov1 = [ascii ''bread'', ascii ''light'', ascii ''water'']
     \<and> map ov_word ov2 = [ascii ''bread'', ascii ''water'', ascii ''light'']"
  using find_overlapping_words_order [OF example_self_words example_enumerates]
  by (auto simp: example_overlap_a example_overlap_b)

text \<open>
  C9 as stated fails: the token sequences are the same and both runtimes iterate the
  intersection set properly, but the two results differ in the order of \<^verbatim>\<open>light\<close> and
  \<^verbatim>\<open>water\<close>, whose totals tie.
\<close>

theorem find_overlapping_words_order_counterexample:
  "get_all_words example_self ''Matthew'' = Inr example_matthew
   \<and> get_all_words example_self ''Mark'' = Inr example_mark
   \<and> get_all_words example_self ''Luke'' = Inr example_luke
   \<and> enumerates (example_runtime example_order_a)
        (set example_matthew \<inter> set example_mark \<inter> set example_luke)
   \<and> enumerates (example_runtime example_order_b)
        (set example_matthew \<inter> set example_mark \<inter> set example_luke)
   \<and> find_overlapping_words (example_runtime example_order_a) example_self
       \<noteq> find_overlapping_words (example_runtime example_order_b) example_self"
  by (simp add: example_self_words example_enumerates example_overlap_a example_overlap_b ascii_def)

subsection \<open>Saving the report\<close>

text \<open>A Gospel file that is missing or unreadable makes the analysis raise.\<close>

lemma analyze_gospel_unreadable:
  assumes "files fs (base_path self @ [filename]) = None
           \<or> files fs (base_path self @ [filename]) = Some Unreadable"
  shows "\<exists>e. analyze_gospel rt self fs gname filename = Inl e"
  using assms by (auto simp: analyze_gospel_def load_gospel_def read_text_def)

lemma analyze_all_unreadable:
  assumes "(gname, filename) \<in> set gs"
    and "files fs (base_path self @ [filename]) = None
         \<or> files fs (base_path self @ [filename]) = Some Unreadable"
  shows "\<exists>e. analyze_all rt fs self gs = Inl e"
  using assms
proof (induction gs arbitrary: self)
  case Nil
  then show ?case by simp
next
  case (Cons g gs)
  obtain gn fn where g: "g = (gn, fn)" by (cases g)
  show ?case
  proof (cases "analyze_gospel rt self fs gn fn")
    case (Inl e)
    then show ?thesis by (simp add: g)
  next
    case (Inr r)
    then have "(gn, fn) \<noteq> (gname, filename)"
      using analyze_gospel_unreadable [OF Cons.prems(2), of rt gname] by auto
    then have "(gname, filename) \<in> set gs" using Cons.prems(1) g by auto
    then have "\<exists>e. analyze_all rt fs (self\<lparr>results := dict_set (results self) gn r\<rparr>) gs = Inl e"
      using Cons.IH [of "self\<lparr>results := dict_set (results self) gn r\<rparr>"] Cons.prems(2) by simp
    then show ?thesis using Inr by (simp add: g)
  qed
qed

lemma run_analysis_unreadable:
  assumes "(gname, filename) \<in> set (gospels self)"
    and "files fs (base_path self @ [filename]) = None
         \<or> files fs (base_path self @ [filename]) = Some Unreadable"
  shows "\<exists>e. run_analysis rt self fs = Inl e"
  using analyze_all_unreadable [OF assms, of rt] by (auto simp: run_analysis_def)

lemma mkdir_parents_files: "mkdir_parents fs d = Inr fs1 \<Longrightarrow> files fs1 = files fs"
  by (auto simp: mkdir_parents_def split: if_splits)

lemma mkdir_parents_dirs:
  "mkdir_parents fs d = Inr fs1 \<Longrightarrow> dirs fs1 = dirs fs \<union> set (prefixes d)"
  by (auto simp: mkdir_parents_def split: if_splits)

text \<open>
  C7. If the file of one of the Gospels is missing or cannot be read, \<^verbatim>\<open>save_results\<close>
  ends with an error and the files of the file system are what they were: nothing is
  written at the output path. The only change there can be is that the parent directories
  of the output path exist afterwards.
\<close>

theorem save_results_missing_input:
  assumes "(gname, filename) \<in> set (gospels self)"
    and "files fs (base_path self @ [filename]) = None
         \<or> files fs (base_path self @ [filename]) = Some Unreadable"
  shows "\<exists>e fs'. save_results rt self fs output_path = (Inl e, fs')
           \<and> files fs' = files fs
           \<and> (dirs fs' = dirs fs
                \<or> dirs fs' = dirs fs \<union> set (prefixes (butlast (base_path self @ output_path))))"
proof (cases "mkdir_parents fs (butlast (base_path self @ output_path))")
  case (Inl e)
  then show ?thesis by (simp add: save_results_def)
next
  case (Inr fs1)
  have f: "files fs1 = files fs" using Inr by (rule mkdir_parents_files)
  obtain e where "run_analysis rt self fs1 = Inl e"
    using run_analysis_unreadable [of gname filename self fs1 rt] assms f by auto
  then show ?thesis
    using Inr f mkdir_parents_dirs [OF Inr] by (simp add: save_results_def)
qed

lemma init_gospels:
  "gospels (init rt base) =
     [(''Matthew'', ''pg8828.txt''), (''Mark'', ''pg8829.txt''), (''Luke'', ''pg8830.txt'')]"
  "base_path (init rt base) = base"
  by (simp_all add: init_def)

lemma example_no_mark:
  "files example_gospels_no_mark [''pg8829.txt''] = None"
  "files example_gospels_no_mark [''data'', ''analysis_results.json''] = None"
  by (simp_all add: example_gospels_no_mark_def example_gospels_def example_fs_def)

lemma example_save_no_mark:
  "fst (save_results (example_runtime []) (init (example_runtime []) []) example_gospels_no_mark
         default_output_path) = Inl FileNotFoundError"
  by code_simp

text \<open>
  Without the file of Mark the run ends with \<^verbatim>\<open>FileNotFoundError\<close>, and there is no file
  at \<^verbatim>\<open>data/analysis_results.json\<close>.
\<close>

theorem save_results_missing_input_witness:
  "fst (save_results (example_runtime []) (init (example_runtime []) []) example_gospels_no_mark
         default_output_path) = Inl FileNotFoundError
   \<and> files (snd (save_results (example_runtime []) (init (example_runtime []) [])
         example_gospels_no_mark default_output_path)) [''data'', ''analysis_results.json''] = None"
  using save_results_missing_input [of "''Mark''" "''pg8829.txt''" "init (example_runtime []) []"
      example_gospels_no_mark "example_runtime []" default_output_path]
  by (auto simp: init_gospels example_no_mark example_save_no_mark)

text \<open>When \<^verbatim>\<open>save_results\<close> succeeds, the output file holds the serialised report.\<close>

lemma save_results_writes_report:
  assumes "save_results rt self fs output_path = (Inr rep, fs')"
  shows "files fs' (base_path self @ output_path) = Some (Content (json_dumps rt rep))"
  using assms
  by (auto simp: save_results_def write_text_def Let_def split: sum.splits prod.splits if_splits)






end
